theory Spec2Isabelle
  imports Complex_Main "HOL-Library.Word"
begin

section \<open>The record transformer: \<open>json_to_row.process\<close>\<close>

text \<open>
  \<^verbatim>\<open>
  class json_to_row(beam.DoFn):
      def process(self, msg):
          dat = msg.decode('utf-8')
          logging.info(f'Payload: {dat}')
          return (
              msg
              | beam.Map(lambda x: {
                  'insert_date': date.today(),
                  'json_dat': dat,
              })
          )
  \<close>
  A message is a Python \<open>bytes\<close> value, a decoded payload a Python \<open>str\<close>, that is a
  sequence of Unicode code points. Besides its result the function has effects: it writes a
  log record, and its lambda reads the wall clock (\<open>date.today()\<close>) when it is applied.
  The level of the root logger and the clock reading are arguments of the model, and the log
  records written are part of its result. An exception is the \<open>Inl\<close> branch of the
  result.
\<close>

type_synonym bytes = "8 word list"
type_synonym str = "nat list"

record date =
  year :: int
  month :: int
  day :: int

datatype error = UnicodeDecodeError | TypeError | ValueError | SystemExit int

subsection \<open>\<open>bytes.decode('utf-8')\<close>\<close>

text \<open>
  Python decodes strictly: a byte sequence is accepted only when it is well-formed UTF-8,
  which excludes overlong forms, the surrogates U+D800..U+DFFF and everything above
  U+10FFFF; anything else raises \<open>UnicodeDecodeError\<close>. The lead byte fixes the length of
  the sequence and the range of the second byte; every later byte is a continuation byte
  \<open>0x80..0xBF\<close>.
\<close>

definition is_cont :: "nat \<Rightarrow> bool" where
  "is_cont b \<longleftrightarrow> 0x80 \<le> b \<and> b \<le> 0xBF"

definition second_lo :: "nat \<Rightarrow> nat" where
  "second_lo b0 = (if b0 = 0xE0 then 0xA0 else if b0 = 0xF0 then 0x90 else 0x80)"

definition second_hi :: "nat \<Rightarrow> nat" where
  "second_hi b0 = (if b0 = 0xED then 0x9F else if b0 = 0xF4 then 0x8F else 0xBF)"

definition emit :: "nat \<Rightarrow> error + str \<Rightarrow> error + str" where
  "emit c r = (case r of Inl e \<Rightarrow> Inl e | Inr cs \<Rightarrow> Inr (c # cs))"

fun utf8_decode_nat :: "nat list \<Rightarrow> error + str" where
  "utf8_decode_nat [] = Inr []"
| "utf8_decode_nat (b0 # bs) =
     (if b0 < 0x80 then emit b0 (utf8_decode_nat bs)
      else if 0xC2 \<le> b0 \<and> b0 \<le> 0xDF then
        (case bs of
           b1 # r \<Rightarrow>
             if is_cont b1
             then emit ((b0 - 0xC0) * 64 + (b1 - 0x80)) (utf8_decode_nat r)
             else Inl UnicodeDecodeError
         | _ \<Rightarrow> Inl UnicodeDecodeError)
      else if 0xE0 \<le> b0 \<and> b0 \<le> 0xEF then
        (case bs of
           b1 # b2 # r \<Rightarrow>
             if second_lo b0 \<le> b1 \<and> b1 \<le> second_hi b0 \<and> is_cont b2
             then emit ((b0 - 0xE0) * 4096 + (b1 - 0x80) * 64 + (b2 - 0x80))
                    (utf8_decode_nat r)
             else Inl UnicodeDecodeError
         | _ \<Rightarrow> Inl UnicodeDecodeError)
      else if 0xF0 \<le> b0 \<and> b0 \<le> 0xF4 then
        (case bs of
           b1 # b2 # b3 # r \<Rightarrow>
             if second_lo b0 \<le> b1 \<and> b1 \<le> second_hi b0 \<and> is_cont b2 \<and> is_cont b3
             then emit ((b0 - 0xF0) * 262144 + (b1 - 0x80) * 4096 + (b2 - 0x80) * 64
                        + (b3 - 0x80))
                    (utf8_decode_nat r)
             else Inl UnicodeDecodeError
         | _ \<Rightarrow> Inl UnicodeDecodeError)
      else Inl UnicodeDecodeError)"

definition decode_utf8 :: "bytes \<Rightarrow> error + str" where
  "decode_utf8 msg = utf8_decode_nat (map unat msg)"

text \<open>
  The encoder \<open>str.encode('utf-8')\<close>, the inverse of the decoder on Unicode scalar
  values. The program does not call it; it says which payloads are well-formed.
\<close>

definition is_scalar :: "nat \<Rightarrow> bool" where
  "is_scalar c \<longleftrightarrow> c < 0xD800 \<or> (0xE000 \<le> c \<and> c \<le> 0x10FFFF)"

definition encode_cp :: "nat \<Rightarrow> nat list" where
  "encode_cp c =
     (if c < 0x80 then [c]
      else if c < 0x800 then [0xC0 + c div 64, 0x80 + c mod 64]
      else if c < 0x10000 then
        [0xE0 + c div 4096, 0x80 + (c div 64) mod 64, 0x80 + c mod 64]
      else
        [0xF0 + c div 262144, 0x80 + (c div 4096) mod 64, 0x80 + (c div 64) mod 64,
         0x80 + c mod 64])"

definition utf8_encode_nat :: "str \<Rightarrow> nat list" where
  "utf8_encode_nat cs = concat (map encode_cp cs)"

definition encode_utf8 :: "str \<Rightarrow> bytes" where
  "encode_utf8 cs = map of_nat (utf8_encode_nat cs)"

text \<open>A result of the decoder that is either a string or the decoding error.\<close>

definition only_decode_error :: "error + str \<Rightarrow> bool" where
  "only_decode_error r = (case r of Inl e \<Rightarrow> e = UnicodeDecodeError | Inr cs \<Rightarrow> True)"

subsection \<open>The function\<close>

record row =
  insert_date :: date
  json_dat :: str

datatype log_record = INFO str

definition ascii :: "string \<Rightarrow> str" where
  "ascii s = map of_char s"

text \<open>
  \<open>logging.info\<close> logs on the root logger, which handles the record when it is enabled
  for the level INFO (20): when its own level is not above 20. The script sets the level to
  INFO before it calls \<open>run\<close>; a root logger left alone has the level WARNING (30).
\<close>

definition logging_info :: "nat \<Rightarrow> str \<Rightarrow> log_record list" where
  "logging_info level text = (if level \<le> 20 then [INFO text] else [])"

text \<open>
  The lambda of lines 18 to 21: it ignores its argument; \<open>date.today()\<close> is the clock
  reading \<open>today\<close>.
\<close>

definition row_of :: "date \<Rightarrow> str \<Rightarrow> 'a \<Rightarrow> row" where
  "row_of today dat x = \<lparr>insert_date = today, json_dat = dat\<rparr>"

text \<open>
  \<open>left | beam.Map(f)\<close> with a left operand that is not a collection of the framework:
  \<open>bytes\<close> has no \<open>|\<close> for a transform, so the reflected operator of the transform
  takes over. It turns the operand into a collection with \<open>Create\<close>, which refuses a
  \<open>str\<close> and a \<open>bytes\<close> value with \<open>TypeError\<close> and takes the elements of any
  other iterable, and then maps the function over the elements.
\<close>

datatype 'a operand = Bytes bytes | Str str | Iterable "'a list"

definition Create :: "'a operand \<Rightarrow> error + 'a list" where
  "Create values =
     (case values of
        Bytes b \<Rightarrow> Inl TypeError
      | Str s \<Rightarrow> Inl TypeError
      | Iterable xs \<Rightarrow> Inr xs)"

definition beam_Map :: "('a \<Rightarrow> 'b) \<Rightarrow> 'a operand \<Rightarrow> error + 'b list" where
  "beam_Map f left =
     (case Create left of
        Inl e \<Rightarrow> Inl e
      | Inr xs \<Rightarrow> Inr (map f xs))"

definition process :: "nat \<Rightarrow> date \<Rightarrow> bytes \<Rightarrow> log_record list \<times> (error + row list)" where
  "process level today msg =
     (case decode_utf8 msg of
        Inl e \<Rightarrow> ([], Inl e)
      | Inr dat \<Rightarrow>
          (logging_info level (ascii ''Payload: '' @ dat),
           beam_Map (row_of today dat) (Bytes msg :: 8 word operand)))"

section \<open>What \<open>run\<close> does\<close>

text \<open>
  \<^verbatim>\<open>
  def run(argv=None, save_main_session=True):
      parser = argparse.ArgumentParser()
      parser.add_argument('--input', dest='input',
          default='gs://dataflow-samples/shakespeare/kinglear.txt', ...)
      parser.add_argument('--output', dest='output', default='output.txt', ...)
      known_args, pipeline_args = parser.parse_known_args(argv)
      pipeline_args.extend(['--job_name=dbz-test-example'])
      pipeline_options = PipelineOptions(pipeline_args)
      pipeline_options.view_as(SetupOptions).save_main_session = save_main_session
      # pipeline_options.view_as(StandardOptions).streaming = True
      with beam.Pipeline(options=pipeline_options) as p:
          (p | 'Read from PubSub' >> beam.io.ReadFromPubSub(topic='dbserver1.inventory.customers')
             | '2 Second Window' >> beam.WindowInto(window.FixedWindows(2))
             | 'Json -> Row' >> json_to_row
             | 'Write to BigQuery' >> beam.io.WriteToBigQuery(
                   schema='insert_date:DATETIME, json_dat:STRING',
                   create_disposition=beam.io.BigQueryDisposition.CREATE_IF_NEEDED))
  \<close>
  \<open>parse_known_args\<close> is the standard library's. It splits the command line into the
  namespace of the two options declared here and the list of the arguments it does not
  know, and only that list reaches the pipeline. The model of \<open>run\<close> starts from this
  pair: \<open>known_args\<close> and \<open>pipeline_args\<close> are its arguments. When the parser
  rejects the command line or prints its help it exits before that.

  The result of the model is the options object that \<open>run\<close> has built when it enters
  the \<open>with\<close> block, and the outcome of the block: the pipeline that it has put
  together, or the exception that ends it.
\<close>

record known_args =
  "input" :: string
  "output" :: string

definition parser_defaults :: known_args where
  "parser_defaults =
     \<lparr>input = ''gs://dataflow-samples/shakespeare/kinglear.txt'', output = ''output.txt''\<rparr>"

text \<open>
  \<open>PipelineOptions(flags)\<close> keeps the flags; \<open>view_as(...).name = value\<close> stores an
  assignment. \<open>None\<close> is an attribute that was never assigned.
\<close>

record pipeline_options =
  flags :: "string list"
  save_main_session_attr :: "bool option"
  streaming_attr :: "bool option"

definition PipelineOptions :: "string list \<Rightarrow> pipeline_options" where
  "PipelineOptions fl = \<lparr>flags = fl, save_main_session_attr = None, streaming_attr = None\<rparr>"

text \<open>
  What the framework reads as the streaming option of an options object on which the
  option was never assigned. The framework parses the flags with its own argument parser,
  which is not code of the repository, and the relation states only the case that is
  needed here: flags that consist of any number of \<open>--streaming\<close>, which the framework
  declares as a flag without a value that is false when absent, followed by the job name
  that \<open>run\<close> appends. The option is on exactly when the flag occurs. Nothing is said
  about any other list of flags.
\<close>

inductive streaming :: "pipeline_options \<Rightarrow> bool \<Rightarrow> bool" where
  "streaming_attr opts = None \<Longrightarrow>
   flags opts = replicate n ''--streaming'' @ [''--job_name=dbz-test-example''] \<Longrightarrow>
   streaming opts (0 < n)"

datatype window_fn = FixedWindows real

datatype bigquery_disposition = CREATE_IF_NEEDED | CREATE_NEVER

text \<open>
  The transforms as values: a read from a topic of a project, a windowing, a write to a
  table with a schema string and a disposition.
\<close>

datatype ptransform =
    PubSubRead string string
  | WindowInto window_fn
  | BigQueryWrite string string bigquery_disposition

text \<open>
  \<open>ReadFromPubSub(topic=...)\<close> checks its topic when it is constructed: the topic has
  to match \<open>projects/([^/]+)/topics/(.+)\<close> from its start, and \<open>ValueError\<close> is
  raised when it does not. \<open>.\<close> matches every character but the line feed.
\<close>

definition strip_prefix :: "string \<Rightarrow> string \<Rightarrow> string option" where
  "strip_prefix pre s =
     (if take (length pre) s = pre then Some (drop (length pre) s) else None)"

definition parse_topic :: "string \<Rightarrow> error + (string \<times> string)" where
  "parse_topic full_topic =
     (case strip_prefix ''projects/'' full_topic of
        None \<Rightarrow> Inl ValueError
      | Some rest \<Rightarrow>
          (let project = takeWhile (\<lambda>c. c \<noteq> CHR ''/'') rest
           in if project = [] then Inl ValueError
              else (case strip_prefix ''/topics/'' (dropWhile (\<lambda>c. c \<noteq> CHR ''/'') rest) of
                      None \<Rightarrow> Inl ValueError
                    | Some name \<Rightarrow>
                        (let topic_name = takeWhile (\<lambda>c. c \<noteq> CHR 0x0A) name
                         in if topic_name = [] then Inl ValueError
                            else Inr (project, topic_name)))))"

definition ReadFromPubSub :: "string \<Rightarrow> error + ptransform" where
  "ReadFromPubSub topic =
     (case parse_topic topic of
        Inl e \<Rightarrow> Inl e
      | Inr (project, topic_name) \<Rightarrow> Inr (PubSubRead project topic_name))"

text \<open>
  \<open>WriteToBigQuery\<close> has \<open>table\<close> as its first parameter, without a default: a call
  that gives no table raises \<open>TypeError\<close>. \<open>None\<close> is the table of such a call.
\<close>

definition WriteToBigQuery ::
  "string option \<Rightarrow> string \<Rightarrow> bigquery_disposition \<Rightarrow> error + ptransform" where
  "WriteToBigQuery table schema create_disposition =
     (case table of
        None \<Rightarrow> Inl TypeError
      | Some t \<Rightarrow> Inr (BigQueryWrite t schema create_disposition))"

text \<open>
  \<open>label >> x\<close> with a string on the left: a string has no \<open>>>\<close>, so the right
  operand has to provide the reflected operator. A transform does and becomes a labelled
  transform; the class \<open>json_to_row\<close>, which the source writes without instantiating it
  and without \<open>ParDo\<close>, does not, and the expression raises \<open>TypeError\<close>.
\<close>

datatype labelled = Transform ptransform | json_to_row

definition rrshift :: "string \<Rightarrow> labelled \<Rightarrow> error + (string \<times> ptransform)" where
  "rrshift label x =
     (case x of
        Transform t \<Rightarrow> Inr (label, t)
      | json_to_row \<Rightarrow> Inl TypeError)"

text \<open>
  \<open>steps\<close> evaluates the chain of the \<open>with\<close> block from left to right, as Python does:
  each operand of \<open>|\<close> is evaluated when the chain to its left has been applied, and the
  first exception ends the evaluation; applying a labelled transform adds it as the next
  stage. \<open>Pipeline\<close> is the constructor of the framework's pipeline object, which reads
  the options and can reject them (its argument parser exits with \<open>SystemExit(2)\<close> on
  flags that it cannot parse); it is an argument of the model, with \<open>Inr\<close> for a
  pipeline object and \<open>Inl\<close> for the exception.
\<close>

fun steps :: "(string \<times> ptransform) list \<Rightarrow> (error + (string \<times> ptransform)) list
    \<Rightarrow> error + (string \<times> ptransform) list" where
  "steps p [] = Inr p"
| "steps p (x # xs) =
     (case x of
        Inl e \<Rightarrow> Inl e
      | Inr stage \<Rightarrow> steps (p @ [stage]) xs)"

definition labelled_transform :: "string \<Rightarrow> error + ptransform \<Rightarrow> error + (string \<times> ptransform)" where
  "labelled_transform label t =
     (case t of
        Inl e \<Rightarrow> Inl e
      | Inr x \<Rightarrow> rrshift label (Transform x))"

definition run ::
  "(pipeline_options \<Rightarrow> error + 'p) \<Rightarrow> known_args \<Rightarrow> string list \<Rightarrow> bool
   \<Rightarrow> pipeline_options \<times> (error + (string \<times> ptransform) list)" where
  "run Pipeline known_args pipeline_args save_main_session =
     (let pipeline_args = pipeline_args @ [''--job_name=dbz-test-example''];
          pipeline_options = PipelineOptions pipeline_args;
          pipeline_options = pipeline_options\<lparr>save_main_session_attr := Some save_main_session\<rparr>
      in (pipeline_options,
          (case Pipeline pipeline_options of
             Inl e \<Rightarrow> Inl e
           | Inr p \<Rightarrow>
               steps []
                 [labelled_transform ''Read from PubSub''
                    (ReadFromPubSub ''dbserver1.inventory.customers''),
                  labelled_transform ''2 Second Window''
                    (Inr (WindowInto (FixedWindows 2))),
                  rrshift ''Json -> Row'' json_to_row,
                  labelled_transform ''Write to BigQuery''
                    (WriteToBigQuery None ''insert_date:DATETIME, json_dat:STRING''
                       CREATE_IF_NEEDED)])))"

section \<open>Window assignment\<close>

text \<open>
  The source asks for the framework's \<open>FixedWindows\<close> with size 2 (line 57). The
  elements that reach a windowing are the messages read from the topic: the payload and the
  publish time that the source assigned, which is the event time of the element.
\<close>

record message =
  payload :: bytes
  publish_time :: real

record window =
  win_start :: real
  win_end :: real

text \<open>
  Modelled from the spec: the assignment rule of \<open>FixedWindows\<close>, which is the
  framework's and not code of the repository. Section 4.3: window boundaries are
  deterministic functions of \<open>floor(event_time / windowDuration) * windowDuration\<close>;
  section 3: a window is the half-open interval from start to end of the fixed
  configured duration.
\<close>

fun assign :: "window_fn \<Rightarrow> message \<Rightarrow> window" where
  "assign (FixedWindows windowDuration) r =
     (let boundary = of_int \<lfloor>publish_time r / windowDuration\<rfloor> * windowDuration
      in \<lparr>win_start = boundary, win_end = boundary + windowDuration\<rparr>)"

text \<open>
  Modelled from the spec: the contract of the Window Assigner, which is the framework's and
  not code of the repository. Section 4.3: \<open>assign(record) -> WindowRef\<close>, "creating a
  new window if none exists covering \<open>record.event_time\<close>". The assigner keeps the
  windows that exist, in the order of their creation; the reference to a window is its
  interval. \<open>assign_ref\<close> takes one arriving record: it returns the existing window
  that covers the event time of the record, and creates the window by the rule above when
  there is none. \<open>arrive\<close> takes a whole arrival sequence. What is done with a record
  once it has its window (buffering, lateness, closing: section 3) comes after the
  assignment and is not part of it.
\<close>

definition covers :: "window \<Rightarrow> real \<Rightarrow> bool" where
  "covers w t \<longleftrightarrow> win_start w \<le> t \<and> t < win_end w"

definition assign_ref :: "window_fn \<Rightarrow> window list \<Rightarrow> message \<Rightarrow> window \<times> window list" where
  "assign_ref windowfn windows r =
     (case find (\<lambda>w. covers w (publish_time r)) windows of
        Some w \<Rightarrow> (w, windows)
      | None \<Rightarrow> (assign windowfn r, windows @ [assign windowfn r]))"

fun arrive :: "window_fn \<Rightarrow> window list \<Rightarrow> message list \<Rightarrow> window list" where
  "arrive windowfn windows [] = windows"
| "arrive windowfn windows (r # rs) = arrive windowfn (snd (assign_ref windowfn windows r)) rs"

section \<open>The watermark\<close>

text \<open>
  Modelled from the spec: the Watermark Tracker of section 4.2, which the framework
  provides and the repository has no code for. \<open>observe(event_time)\<close> updates the
  state and \<open>currentWatermark()\<close> reads it. The candidate watermark is the minimum of
  the observed event time and the source's low-watermark hint, minus the safety margin;
  without a hint it is the wall-clock time minus the margin. The watermark never moves
  backward: a candidate below the current watermark is clamped to it, and the regression is
  logged (section 7, WatermarkRegressionAnomaly) instead of being raised.
\<close>

record observation =
  event_time :: real
  low_watermark_hint :: "real option"
  wall_clock :: real

datatype anomaly = WatermarkRegressionAnomaly real real

record tracker =
  currentWatermark :: real
  anomalies :: "anomaly list"

definition candidate :: "real \<Rightarrow> observation \<Rightarrow> real" where
  "candidate watermark_safety_margin ob =
     (case low_watermark_hint ob of
        Some hint \<Rightarrow> min (event_time ob) hint - watermark_safety_margin
      | None \<Rightarrow> wall_clock ob - watermark_safety_margin)"

definition observe :: "real \<Rightarrow> tracker \<Rightarrow> observation \<Rightarrow> tracker" where
  "observe watermark_safety_margin tr ob =
     (let c = candidate watermark_safety_margin ob
      in if c < currentWatermark tr
         then tr\<lparr>anomalies := anomalies tr @ [WatermarkRegressionAnomaly (currentWatermark tr) c]\<rparr>
         else tr\<lparr>currentWatermark := c\<rparr>)"

text \<open>The watermarks read after each call of a sequence of \<open>observe\<close> calls.\<close>

fun watermarks :: "real \<Rightarrow> tracker \<Rightarrow> observation list \<Rightarrow> real list" where
  "watermarks margin tr [] = []"
| "watermarks margin tr (ob # obs) =
     currentWatermark (observe margin tr ob) # watermarks margin (observe margin tr ob) obs"

section \<open>The decoder accepts exactly the well-formed payloads\<close>

text \<open>One step of the decoder, for each length of sequence.\<close>

lemma dec1: "b0 < 0x80 \<Longrightarrow> utf8_decode_nat (b0 # bs) = emit b0 (utf8_decode_nat bs)"
  by simp

lemma dec2:
  "0xC2 \<le> b0 \<Longrightarrow> b0 \<le> 0xDF \<Longrightarrow> is_cont b1 \<Longrightarrow>
   utf8_decode_nat (b0 # b1 # bs) = emit ((b0 - 0xC0) * 64 + (b1 - 0x80)) (utf8_decode_nat bs)"
  by simp

lemma dec3:
  "0xE0 \<le> b0 \<Longrightarrow> b0 \<le> 0xEF \<Longrightarrow> second_lo b0 \<le> b1 \<Longrightarrow> b1 \<le> second_hi b0 \<Longrightarrow> is_cont b2 \<Longrightarrow>
   utf8_decode_nat (b0 # b1 # b2 # bs) =
     emit ((b0 - 0xE0) * 4096 + (b1 - 0x80) * 64 + (b2 - 0x80)) (utf8_decode_nat bs)"
  by simp

lemma dec4:
  "0xF0 \<le> b0 \<Longrightarrow> b0 \<le> 0xF4 \<Longrightarrow> second_lo b0 \<le> b1 \<Longrightarrow> b1 \<le> second_hi b0 \<Longrightarrow> is_cont b2 \<Longrightarrow> is_cont b3 \<Longrightarrow>
   utf8_decode_nat (b0 # b1 # b2 # b3 # bs) =
     emit ((b0 - 0xF0) * 262144 + (b1 - 0x80) * 4096 + (b2 - 0x80) * 64 + (b3 - 0x80))
       (utf8_decode_nat bs)"
  by simp

text \<open>Splitting a code point into six-bit groups.\<close>

lemma group1: "l < 64 \<Longrightarrow> (k * 64 + l) div 64 = (k::nat) \<and> (k * 64 + l) mod 64 = l"
  by simp

lemma group2:
  assumes "m < 64" "l < 64"
  shows "(h * 4096 + m * 64 + l) div 64 = h * 64 + (m::nat)"
    and "(h * 4096 + m * 64 + l) mod 64 = l"
    and "(h * 4096 + m * 64 + l) div 4096 = h"
proof -
  have eq: "h * 4096 + m * 64 + l = (h * 64 + m) * 64 + l" by simp
  show d: "(h * 4096 + m * 64 + l) div 64 = h * 64 + m"
    unfolding eq using group1 [OF assms(2)] by blast
  show "(h * 4096 + m * 64 + l) mod 64 = l"
    unfolding eq using group1 [OF assms(2)] by blast
  have "(h * 4096 + m * 64 + l) div 4096 = (h * 4096 + m * 64 + l) div 64 div 64"
    by (simp add: div_mult2_eq)
  also have "\<dots> = (h * 64 + m) div 64" by (simp only: d)
  also have "\<dots> = h" using group1 [OF assms(1)] by blast
  finally show "(h * 4096 + m * 64 + l) div 4096 = h" .
qed

lemma group3:
  assumes "n < 64" "m < 64" "l < 64"
  shows "(g * 262144 + n * 4096 + m * 64 + l) div 64 = g * 4096 + n * 64 + (m::nat)"
    and "(g * 262144 + n * 4096 + m * 64 + l) mod 64 = l"
    and "(g * 262144 + n * 4096 + m * 64 + l) div 4096 = g * 64 + n"
    and "(g * 262144 + n * 4096 + m * 64 + l) div 262144 = g"
proof -
  let ?c = "g * 262144 + n * 4096 + m * 64 + l"
  have eq: "?c = (g * 4096 + n * 64 + m) * 64 + l" by simp
  show d: "?c div 64 = g * 4096 + n * 64 + m"
    unfolding eq using group1 [OF assms(3)] by blast
  show "?c mod 64 = l"
    unfolding eq using group1 [OF assms(3)] by blast
  have "?c div 4096 = ?c div 64 div 64" by (simp add: div_mult2_eq)
  also have "\<dots> = (g * 4096 + n * 64 + m) div 64" by (simp only: d)
  also have "\<dots> = ((g * 64 + n) * 64 + m) div 64" by simp
  also have "\<dots> = g * 64 + n" using group1 [OF assms(2)] by blast
  finally show d2: "?c div 4096 = g * 64 + n" .
  have "?c div 262144 = ?c div 4096 div 64" by (simp add: div_mult2_eq)
  also have "\<dots> = g" unfolding d2 using group1 [OF assms(1)] by blast
  finally show "?c div 262144 = g" .
qed

lemma encode_cp_1: "c < 0x80 \<Longrightarrow> encode_cp c = [c]"
  by (simp add: encode_cp_def)

lemma encode_cp_2:
  "0x80 \<le> c \<Longrightarrow> c < 0x800 \<Longrightarrow> encode_cp c = [0xC0 + c div 64, 0x80 + c mod 64]"
  by (simp add: encode_cp_def)

lemma encode_cp_3:
  "0x800 \<le> c \<Longrightarrow> c < 0x10000 \<Longrightarrow>
   encode_cp c = [0xE0 + c div 4096, 0x80 + (c div 64) mod 64, 0x80 + c mod 64]"
  by (simp add: encode_cp_def)

lemma encode_cp_4:
  "0x10000 \<le> c \<Longrightarrow>
   encode_cp c = [0xF0 + c div 262144, 0x80 + (c div 4096) mod 64, 0x80 + (c div 64) mod 64,
     0x80 + c mod 64]"
  by (simp add: encode_cp_def)

lemma enc2:
  assumes "2 \<le> k" "k \<le> 31" "l < 64"
  shows "encode_cp (k * 64 + l) = [0xC0 + k, 0x80 + l]" and "is_scalar (k * 64 + l)"
proof -
  have r: "0x80 \<le> k * 64 + l" "k * 64 + l < 0x800" using assms by linarith+
  show "encode_cp (k * 64 + l) = [0xC0 + k, 0x80 + l]"
    unfolding encode_cp_2 [OF r] using group1 [OF assms(3), of k] by (simp only:)
  show "is_scalar (k * 64 + l)" unfolding is_scalar_def using r(2) by linarith
qed

lemma enc3:
  assumes "h \<le> 15" "m < 64" "l < 64" "h = 0 \<longrightarrow> 32 \<le> m" "h = 13 \<longrightarrow> m \<le> 31"
  shows "encode_cp (h * 4096 + m * 64 + l) = [0xE0 + h, 0x80 + m, 0x80 + l]"
    and "is_scalar (h * 4096 + m * 64 + l)"
proof -
  let ?c = "h * 4096 + m * 64 + l"
  have r1: "0x800 \<le> ?c" using assms(4) by (cases "h = 0") linarith+
  have r2: "?c < 0x10000" using assms(1,2,3) by linarith
  have s: "?c < 0xD800 \<or> 0xE000 \<le> ?c"
  proof (cases "h = 13")
    case True
    then show ?thesis using assms(5,3) by linarith
  next
    case False
    then have "h \<le> 12 \<or> 14 \<le> h" by linarith
    then show ?thesis using assms(2,3) by linarith
  qed
  note G = group2 [OF assms(2) assms(3), of h]
  have g: "(h * 64 + m) mod 64 = m"
    using group1 [OF assms(2), of h] by blast
  show "encode_cp ?c = [0xE0 + h, 0x80 + m, 0x80 + l]"
    unfolding encode_cp_3 [OF r1 r2] by (simp only: G g)
  show "is_scalar ?c" unfolding is_scalar_def using r2 s by linarith
qed

lemma enc4:
  assumes "g \<le> 4" "n < 64" "m < 64" "l < 64" "g = 0 \<longrightarrow> 16 \<le> n" "g = 4 \<longrightarrow> n \<le> 15"
  shows "encode_cp (g * 262144 + n * 4096 + m * 64 + l) = [0xF0 + g, 0x80 + n, 0x80 + m, 0x80 + l]"
    and "is_scalar (g * 262144 + n * 4096 + m * 64 + l)"
proof -
  let ?c = "g * 262144 + n * 4096 + m * 64 + l"
  have r1: "0x10000 \<le> ?c" using assms(5) by (cases "g = 0") linarith+
  have r2: "?c \<le> 0x10FFFF"
  proof (cases "g = 4")
    case True
    then show ?thesis using assms(6,3,4) by linarith
  next
    case False
    then have "g \<le> 3" using assms(1) by linarith
    then show ?thesis using assms(2,3,4) by linarith
  qed
  note G = group3 [OF assms(2) assms(3) assms(4), of g]
  have g1: "(g * 4096 + n * 64 + m) mod 64 = m"
  proof -
    have "g * 4096 + n * 64 + m = (g * 64 + n) * 64 + m" by simp
    then show ?thesis using group1 [OF assms(3), of "g * 64 + n"] by (simp only:)
  qed
  have g2: "(g * 64 + n) mod 64 = n"
    using group1 [OF assms(2), of g] by blast
  show "encode_cp ?c = [0xF0 + g, 0x80 + n, 0x80 + m, 0x80 + l]"
    unfolding encode_cp_4 [OF r1] by (simp only: G g1 g2)
  show "is_scalar ?c" unfolding is_scalar_def using r1 r2 by linarith
qed

lemma dec2':
  assumes "2 \<le> k" "k \<le> 31" "l < 64"
  shows "utf8_decode_nat ((0xC0 + k) # (0x80 + l) # bs) = emit (k * 64 + l) (utf8_decode_nat bs)"
proof -
  have c: "is_cont (0x80 + l)" using assms(3) by (simp add: is_cont_def)
  have lo: "0xC2 \<le> 0xC0 + k" and hi: "0xC0 + k \<le> 0xDF" using assms by linarith+
  show ?thesis using dec2 [OF lo hi c, of bs] by simp
qed

lemma dec3':
  assumes "h \<le> 15" "m < 64" "l < 64" "h = 0 \<longrightarrow> 32 \<le> m" "h = 13 \<longrightarrow> m \<le> 31"
  shows "utf8_decode_nat ((0xE0 + h) # (0x80 + m) # (0x80 + l) # bs) =
    emit (h * 4096 + m * 64 + l) (utf8_decode_nat bs)"
proof -
  have c: "is_cont (0x80 + l)" using assms(3) by (simp add: is_cont_def)
  have lo: "0xE0 \<le> 0xE0 + h" and hi: "0xE0 + h \<le> 0xEF" using assms(1) by linarith+
  have s1: "second_lo (0xE0 + h) \<le> 0x80 + m"
    using assms(1,4) by (simp add: second_lo_def)
  have s2: "0x80 + m \<le> second_hi (0xE0 + h)"
    using assms(1,2,5) by (simp add: second_hi_def)
  show ?thesis using dec3 [OF lo hi s1 s2 c, of bs] by simp
qed

lemma dec4':
  assumes "g \<le> 4" "n < 64" "m < 64" "l < 64" "g = 0 \<longrightarrow> 16 \<le> n" "g = 4 \<longrightarrow> n \<le> 15"
  shows "utf8_decode_nat ((0xF0 + g) # (0x80 + n) # (0x80 + m) # (0x80 + l) # bs) =
    emit (g * 262144 + n * 4096 + m * 64 + l) (utf8_decode_nat bs)"
proof -
  have c2: "is_cont (0x80 + m)" using assms(3) by (simp add: is_cont_def)
  have c3: "is_cont (0x80 + l)" using assms(4) by (simp add: is_cont_def)
  have lo: "0xF0 \<le> 0xF0 + g" and hi: "0xF0 + g \<le> 0xF4" using assms(1) by linarith+
  have s1: "second_lo (0xF0 + g) \<le> 0x80 + n"
    using assms(1,5) by (simp add: second_lo_def)
  have s2: "0x80 + n \<le> second_hi (0xF0 + g)"
    using assms(1,2,6) by (simp add: second_hi_def)
  show ?thesis using dec4 [OF lo hi s1 s2 c2 c3, of bs] by simp
qed

lemma groups_of:
  fixes c :: nat
  obtains x l where "c = x * 64 + l" "l < 64" "x = c div 64" "l = c mod 64"
  by (metis div_mult_mod_eq mod_less_divisor zero_less_numeral)

lemma decode_encode_cp:
  assumes "is_scalar c"
  shows "utf8_decode_nat (encode_cp c @ bs) = emit c (utf8_decode_nat bs)"
proof -
  obtain x l where x: "c = x * 64 + l" "l < 64" by (rule groups_of)
  obtain y m where y: "x = y * 64 + m" "m < 64" by (rule groups_of)
  obtain z n where z: "y = z * 64 + n" "n < 64" by (rule groups_of)
  consider (one) "c < 0x80" | (two) "0x80 \<le> c" "c < 0x800"
    | (three) "0x800 \<le> c" "c < 0x10000" | (four) "0x10000 \<le> c"
    by linarith
  then show ?thesis
  proof cases
    case one
    then show ?thesis using dec1 [OF one, of bs] by (simp add: encode_cp_1)
  next
    case two
    have k: "2 \<le> x" "x \<le> 31" using two x by linarith+
    show ?thesis
      unfolding x(1) enc2(1) [OF k x(2)] using dec2' [OF k x(2), of bs] by simp
  next
    case three
    have c: "c = y * 4096 + m * 64 + l" using x(1) y(1) by simp
    have h: "y \<le> 15" using three(2) x y by linarith
    have h0: "y = 0 \<longrightarrow> 32 \<le> m" using three(1) x y by linarith
    have hd: "y = 13 \<longrightarrow> m \<le> 31"
      using assms x y unfolding is_scalar_def by linarith
    show ?thesis
      unfolding c enc3(1) [OF h y(2) x(2) h0 hd]
      using dec3' [OF h y(2) x(2) h0 hd, of bs] by simp
  next
    case four
    have c: "c = z * 262144 + n * 4096 + m * 64 + l" using x(1) y(1) z(1) by simp
    have top: "c \<le> 0x10FFFF" using assms four unfolding is_scalar_def by linarith
    have g: "z \<le> 4" using top x y z by linarith
    have g0: "z = 0 \<longrightarrow> 16 \<le> n" using four x y z by linarith
    have g4: "z = 4 \<longrightarrow> n \<le> 15" using top x y z by linarith
    show ?thesis
      unfolding c enc4(1) [OF g z(2) y(2) x(2) g0 g4]
      using dec4' [OF g z(2) y(2) x(2) g0 g4, of bs] by simp
  qed
qed

lemma utf8_encode_nat_Cons: "utf8_encode_nat (c # cs) = encode_cp c @ utf8_encode_nat cs"
  by (simp add: utf8_encode_nat_def)

lemma decode_encode_nat:
  "list_all is_scalar cs \<Longrightarrow> utf8_decode_nat (utf8_encode_nat cs) = Inr cs"
proof (induction cs)
  case Nil
  show ?case by (simp add: utf8_encode_nat_def)
next
  case (Cons c cs)
  then show ?case
    by (simp add: utf8_encode_nat_Cons decode_encode_cp emit_def)
qed

lemma emit_Inr: "emit c r = Inr cs \<Longrightarrow> \<exists>cs'. r = Inr cs' \<and> cs = c # cs'"
  by (cases r) (simp_all add: emit_def)

lemma encode_decode_nat:
  "utf8_decode_nat bs = Inr cs \<Longrightarrow> utf8_encode_nat cs = bs \<and> list_all is_scalar cs"
proof (induction bs arbitrary: cs rule: utf8_decode_nat.induct)
  case 1
  then show ?case by (simp add: utf8_encode_nat_def)
next
  case (2 b0 bs)
  note dec = "2.prems"
  consider (one) "b0 < 0x80" | (two) "0xC2 \<le> b0" "b0 \<le> 0xDF"
    | (three) "0xE0 \<le> b0" "b0 \<le> 0xEF" | (four) "0xF0 \<le> b0" "b0 \<le> 0xF4"
    | (bad) "0x80 \<le> b0" "b0 < 0xC2" | (high) "0xF4 < b0"
    by linarith
  then show ?case
  proof cases
    case one
    from dec one obtain cs' where r: "utf8_decode_nat bs = Inr cs'" and cs: "cs = b0 # cs'"
      by (auto dest: emit_Inr)
    from "2.IH"(1) [OF one r] have ih: "utf8_encode_nat cs' = bs" "list_all is_scalar cs'"
      by simp_all
    have "is_scalar b0" using one by (simp add: is_scalar_def)
    then show ?thesis using ih one by (simp add: cs utf8_encode_nat_Cons encode_cp_1)
  next
    case two
    have n1: "\<not> b0 < 0x80" using two by linarith
    from dec two n1 obtain b1 r where bs: "bs = b1 # r" and c1: "is_cont b1"
      by (cases bs) (auto split: if_splits)
    from dec two n1 bs c1 obtain cs' where r: "utf8_decode_nat r = Inr cs'"
      and cs: "cs = ((b0 - 0xC0) * 64 + (b1 - 0x80)) # cs'"
      by (auto dest: emit_Inr)
    have two': "0xC2 \<le> b0 \<and> b0 \<le> 0xDF" using two by simp
    from "2.IH"(2) [OF n1 two' bs c1 r]
    have ih: "utf8_encode_nat cs' = r" "list_all is_scalar cs'" by simp_all
    define k l where "k = b0 - 0xC0" and "l = b1 - 0x80"
    have k: "b0 = 0xC0 + k" and kr: "2 \<le> k" "k \<le> 31"
      using two unfolding k_def l_def by linarith+
    have l: "b1 = 0x80 + l" and lr: "l < 64"
      using c1 unfolding k_def l_def is_cont_def by linarith+
    show ?thesis using ih enc2 [OF kr lr]
      by (simp add: cs bs k l utf8_encode_nat_Cons)
  next
    case three
    have n1: "\<not> b0 < 0x80" and n2: "\<not> (0xC2 \<le> b0 \<and> b0 \<le> 0xDF)"
      using three by linarith+
    have three': "0xE0 \<le> b0 \<and> b0 \<le> 0xEF" using three by simp
    from dec three n1 n2 obtain b1 b2 r where bs: "bs = b1 # b2 # r"
      and c: "second_lo b0 \<le> b1 \<and> b1 \<le> second_hi b0 \<and> is_cont b2"
      by (cases bs; cases "tl bs") (auto split: if_splits)
    from dec three n1 n2 bs c obtain cs' where r: "utf8_decode_nat r = Inr cs'"
      and cs: "cs = ((b0 - 0xE0) * 4096 + (b1 - 0x80) * 64 + (b2 - 0x80)) # cs'"
      by (auto dest: emit_Inr)
    from "2.IH"(3) [OF n1 n2 three' bs refl c r]
    have ih: "utf8_encode_nat cs' = r" "list_all is_scalar cs'" by simp_all
    define h m l where "h = b0 - 0xE0" and "m = b1 - 0x80" and "l = b2 - 0x80"
    have h: "b0 = 0xE0 + h" and hr: "h \<le> 15"
      using three unfolding h_def m_def l_def by linarith+
    have l: "b2 = 0x80 + l" and lr: "l < 64"
      using c unfolding h_def m_def l_def is_cont_def by linarith+
    have lo: "0x80 \<le> b1" using c three by (simp add: second_lo_def split: if_splits)
    have hi: "b1 \<le> 0xBF" using c by (simp add: second_hi_def split: if_splits)
    have m: "b1 = 0x80 + m" and mr: "m < 64"
      using lo hi unfolding h_def m_def l_def by linarith+
    have h0: "h = 0 \<longrightarrow> 32 \<le> m" using c unfolding h m by (auto simp: second_lo_def)
    have hd: "h = 13 \<longrightarrow> m \<le> 31" using c unfolding h m by (auto simp: second_hi_def)
    show ?thesis using ih enc3 [OF hr mr lr h0 hd]
      by (simp add: cs bs h m l utf8_encode_nat_Cons)
  next
    case four
    have n1: "\<not> b0 < 0x80" and n2: "\<not> (0xC2 \<le> b0 \<and> b0 \<le> 0xDF)"
      and n3: "\<not> (0xE0 \<le> b0 \<and> b0 \<le> 0xEF)"
      using four by linarith+
    have four': "0xF0 \<le> b0 \<and> b0 \<le> 0xF4" using four by simp
    from dec four n1 n2 n3 obtain b1 b2 b3 r where bs: "bs = b1 # b2 # b3 # r"
      and c: "second_lo b0 \<le> b1 \<and> b1 \<le> second_hi b0 \<and> is_cont b2 \<and> is_cont b3"
      by (cases bs; cases "tl bs"; cases "tl (tl bs)") (auto split: if_splits)
    from dec four n1 n2 n3 bs c obtain cs' where r: "utf8_decode_nat r = Inr cs'"
      and cs: "cs = ((b0 - 0xF0) * 262144 + (b1 - 0x80) * 4096 + (b2 - 0x80) * 64
                     + (b3 - 0x80)) # cs'"
      by (auto dest: emit_Inr)
    from "2.IH"(4) [OF n1 n2 n3 four' bs refl refl c r]
    have ih: "utf8_encode_nat cs' = r" "list_all is_scalar cs'" by simp_all
    define g n m l where "g = b0 - 0xF0" and "n = b1 - 0x80" and "m = b2 - 0x80"
      and "l = b3 - 0x80"
    have g: "b0 = 0xF0 + g" and gr: "g \<le> 4"
      using four unfolding g_def n_def m_def l_def by linarith+
    have m: "b2 = 0x80 + m" and mr: "m < 64"
      using c unfolding g_def n_def m_def l_def is_cont_def by linarith+
    have l: "b3 = 0x80 + l" and lr: "l < 64"
      using c unfolding g_def n_def m_def l_def is_cont_def by linarith+
    have lo: "0x80 \<le> b1" using c four by (simp add: second_lo_def split: if_splits)
    have hi: "b1 \<le> 0xBF" using c by (simp add: second_hi_def split: if_splits)
    have n: "b1 = 0x80 + n" and nr: "n < 64"
      using lo hi unfolding g_def n_def m_def l_def by linarith+
    have g0: "g = 0 \<longrightarrow> 16 \<le> n" using c unfolding g n by (auto simp: second_lo_def)
    have g4: "g = 4 \<longrightarrow> n \<le> 15" using c unfolding g n by (auto simp: second_hi_def)
    show ?thesis using ih enc4 [OF gr nr mr lr g0 g4]
      by (simp add: cs bs g n m l utf8_encode_nat_Cons)
  next
    case bad
    then show ?thesis using dec by simp
  next
    case high
    then show ?thesis using dec by simp
  qed
qed

lemma encode_cp_bytes:
  assumes "is_scalar c"
  shows "list_all (\<lambda>b. b < 256) (encode_cp c)"
proof -
  obtain x l where x: "c = x * 64 + l" "l < 64" by (rule groups_of)
  obtain y m where y: "x = y * 64 + m" "m < 64" by (rule groups_of)
  obtain z n where z: "y = z * 64 + n" "n < 64" by (rule groups_of)
  consider (one) "c < 0x80" | (two) "0x80 \<le> c" "c < 0x800"
    | (three) "0x800 \<le> c" "c < 0x10000" | (four) "0x10000 \<le> c"
    by linarith
  then show ?thesis
  proof cases
    case one
    then show ?thesis by (simp add: encode_cp_1)
  next
    case two
    have k: "2 \<le> x" "x \<le> 31" using two x by linarith+
    show ?thesis
      unfolding x(1) enc2(1) [OF k x(2)] using k x(2) by simp
  next
    case three
    have c: "c = y * 4096 + m * 64 + l" using x(1) y(1) by simp
    have h: "y \<le> 15" using three(2) x y by linarith
    have h0: "y = 0 \<longrightarrow> 32 \<le> m" using three(1) x y by linarith
    have hd: "y = 13 \<longrightarrow> m \<le> 31"
      using assms x y unfolding is_scalar_def by linarith
    show ?thesis
      unfolding c enc3(1) [OF h y(2) x(2) h0 hd] using h y(2) x(2) by simp
  next
    case four
    have c: "c = z * 262144 + n * 4096 + m * 64 + l" using x(1) y(1) z(1) by simp
    have top: "c \<le> 0x10FFFF" using assms four unfolding is_scalar_def by linarith
    have g: "z \<le> 4" using top x y z by linarith
    have g0: "z = 0 \<longrightarrow> 16 \<le> n" using four x y z by linarith
    have g4: "z = 4 \<longrightarrow> n \<le> 15" using top x y z by linarith
    show ?thesis
      unfolding c enc4(1) [OF g z(2) y(2) x(2) g0 g4] using g z(2) y(2) x(2) by simp
  qed
qed

lemma utf8_encode_nat_bytes:
  "list_all is_scalar cs \<Longrightarrow> list_all (\<lambda>b. b < 256) (utf8_encode_nat cs)"
  by (induction cs) (simp_all add: utf8_encode_nat_def encode_cp_bytes)

lemma unat_of_nat_bytes:
  "list_all (\<lambda>b. b < 256) bs \<Longrightarrow> map unat (map of_nat bs :: 8 word list) = bs"
  by (induction bs) (simp_all add: unat_of_nat)

lemma of_nat_unat_bytes: "map of_nat (map unat (msg :: 8 word list)) = msg"
  by (induction msg) simp_all

lemma decode_utf8_iff:
  "decode_utf8 msg = Inr cs \<longleftrightarrow> list_all is_scalar cs \<and> encode_utf8 cs = msg"
proof
  assume "decode_utf8 msg = Inr cs"
  then have "utf8_encode_nat cs = map unat msg \<and> list_all is_scalar cs"
    unfolding decode_utf8_def by (rule encode_decode_nat)
  then show "list_all is_scalar cs \<and> encode_utf8 cs = msg"
    unfolding encode_utf8_def using of_nat_unat_bytes [of msg] by (simp only:)
next
  assume a: "list_all is_scalar cs \<and> encode_utf8 cs = msg"
  then have "map unat msg = utf8_encode_nat cs"
    using unat_of_nat_bytes [OF utf8_encode_nat_bytes, of cs] by (auto simp: encode_utf8_def)
  then show "decode_utf8 msg = Inr cs"
    using a by (simp add: decode_utf8_def decode_encode_nat)
qed

text \<open>The decoder raises nothing but \<open>UnicodeDecodeError\<close>.\<close>

lemma only_decode_error_Inl: "only_decode_error (Inl UnicodeDecodeError)"
  by (simp add: only_decode_error_def)

lemma only_decode_error_emit: "only_decode_error r \<Longrightarrow> only_decode_error (emit c r)"
  by (cases r) (simp_all add: only_decode_error_def emit_def)

lemma only_decode_error_decode: "only_decode_error (utf8_decode_nat bs)"
proof (induction bs rule: utf8_decode_nat.induct)
  case 1
  show ?case by (simp add: only_decode_error_def)
next
  case (2 b0 bs)
  show ?case
  proof (cases "b0 < 0x80")
    case True
    then show ?thesis using "2.IH"(1) by (simp add: only_decode_error_emit)
  next
    case n1: False
    show ?thesis
    proof (cases "0xC2 \<le> b0 \<and> b0 \<le> 0xDF")
      case True
      then show ?thesis using n1 "2.IH"(2)
        by (simp add: only_decode_error_emit only_decode_error_Inl split: list.split)
    next
      case n2: False
      show ?thesis
      proof (cases "0xE0 \<le> b0 \<and> b0 \<le> 0xEF")
        case True
        then show ?thesis using n1 n2 "2.IH"(3)
          by (simp add: only_decode_error_emit only_decode_error_Inl split: list.split)
      next
        case n3: False
        show ?thesis
        proof (cases "0xF0 \<le> b0 \<and> b0 \<le> 0xF4")
          case True
          then show ?thesis using n1 n2 n3 "2.IH"(4)
            by (simp add: only_decode_error_emit only_decode_error_Inl split: list.split)
        next
          case False
          then show ?thesis using n1 n2 n3
            by (auto simp: only_decode_error_Inl)
        qed
      qed
    qed
  qed
qed

lemma utf8_decode_nat_error: "utf8_decode_nat bs = Inl e \<Longrightarrow> e = UnicodeDecodeError"
  using only_decode_error_decode [of bs] by (simp add: only_decode_error_def)

lemma decode_utf8_cases:
  "decode_utf8 msg = Inl UnicodeDecodeError \<or> (\<exists>dat. decode_utf8 msg = Inr dat)"
  by (cases "decode_utf8 msg") (auto simp: decode_utf8_def dest: utf8_decode_nat_error)

lemma decode_utf8_Inl:
  "(\<nexists>dat. list_all is_scalar dat \<and> encode_utf8 dat = msg)
   \<longleftrightarrow> decode_utf8 msg = Inl UnicodeDecodeError"
proof -
  have "decode_utf8 msg = Inl UnicodeDecodeError \<longleftrightarrow> (\<nexists>dat. decode_utf8 msg = Inr dat)"
    using decode_utf8_cases [of msg] by auto
  then show ?thesis by (simp add: decode_utf8_iff)
qed

section \<open>Window assignment is a function of the event time\<close>

text \<open>
  The windows that the assigner keeps are tumbling windows of 2 seconds, whatever arrived
  before; such a window covers an event time only when it is the window of that time.
\<close>

lemma floor_window:
  fixes t :: real
  shows "of_int \<lfloor>t / 2\<rfloor> * 2 \<le> t \<and> t < of_int \<lfloor>t / 2\<rfloor> * 2 + 2"
  using floor_divide_lower [of 2 t] floor_divide_upper [of 2 t] by (simp add: algebra_simps)

lemma covers_tumbling:
  fixes t :: real
  assumes "covers \<lparr>win_start = of_int k * 2, win_end = of_int k * 2 + 2\<rparr> t"
  shows "k = \<lfloor>t / 2\<rfloor>"
proof -
  have "of_int k \<le> t / 2" and "t / 2 < of_int k + 1"
    using assms by (simp_all add: covers_def field_simps)
  then show ?thesis by (simp add: floor_unique)
qed

lemma assign_tumbling:
  "\<exists>k::int. assign (FixedWindows 2) r = \<lparr>win_start = of_int k * 2, win_end = of_int k * 2 + 2\<rparr>"
  by (simp add: Let_def)

lemma assign_ref_tumbling:
  assumes "\<forall>w \<in> set windows. \<exists>k::int. w = \<lparr>win_start = of_int k * 2, win_end = of_int k * 2 + 2\<rparr>"
  shows "fst (assign_ref (FixedWindows 2) windows r) = assign (FixedWindows 2) r"
    and "\<forall>w \<in> set (snd (assign_ref (FixedWindows 2) windows r)).
          \<exists>k::int. w = \<lparr>win_start = of_int k * 2, win_end = of_int k * 2 + 2\<rparr>"
proof -
  show "fst (assign_ref (FixedWindows 2) windows r) = assign (FixedWindows 2) r"
  proof (cases "find (\<lambda>w. covers w (publish_time r)) windows")
    case None
    then show ?thesis by (simp add: assign_ref_def)
  next
    case (Some w)
    then have "w \<in> set windows" and c: "covers w (publish_time r)"
      by (auto simp: find_Some_iff)
    then obtain k :: int where w: "w = \<lparr>win_start = of_int k * 2, win_end = of_int k * 2 + 2\<rparr>"
      using assms by blast
    have "k = \<lfloor>publish_time r / 2\<rfloor>" using c unfolding w by (rule covers_tumbling)
    then show ?thesis using Some w by (simp add: assign_ref_def Let_def)
  qed
  show "\<forall>w \<in> set (snd (assign_ref (FixedWindows 2) windows r)).
          \<exists>k::int. w = \<lparr>win_start = of_int k * 2, win_end = of_int k * 2 + 2\<rparr>"
    using assms assign_tumbling [of r]
    by (auto simp: assign_ref_def split: option.splits)
qed

lemma arrive_tumbling:
  "\<forall>w \<in> set windows. \<exists>k::int. w = \<lparr>win_start = of_int k * 2, win_end = of_int k * 2 + 2\<rparr>
   \<Longrightarrow> \<forall>w \<in> set (arrive (FixedWindows 2) windows rs).
         \<exists>k::int. w = \<lparr>win_start = of_int k * 2, win_end = of_int k * 2 + 2\<rparr>"
proof (induction rs arbitrary: windows)
  case Nil
  then show ?case by simp
next
  case (Cons r rs)
  from assign_ref_tumbling(2) [OF Cons.prems, of r]
  show ?case by (simp add: Cons.IH)
qed

lemma assign_ref_after_arrivals:
  assumes "set windows \<subseteq> set (arrive (FixedWindows 2) [] earlier)"
  shows "fst (assign_ref (FixedWindows 2) windows r) = assign (FixedWindows 2) r"
proof -
  have "\<forall>w \<in> set (arrive (FixedWindows 2) [] earlier).
      \<exists>k::int. w = \<lparr>win_start = of_int k * 2, win_end = of_int k * 2 + 2\<rparr>"
    by (rule arrive_tumbling) simp
  with assms have "\<forall>w \<in> set windows.
      \<exists>k::int. w = \<lparr>win_start = of_int k * 2, win_end = of_int k * 2 + 2\<rparr>"
    by blast
  then show ?thesis by (rule assign_ref_tumbling(1))
qed

lemma assign_ref_creates:
  assumes "\<forall>w \<in> set windows. \<exists>k::int. w = \<lparr>win_start = of_int k * 2, win_end = of_int k * 2 + 2\<rparr>"
  shows "assign (FixedWindows 2) r \<in> set (snd (assign_ref (FixedWindows 2) windows r))"
    and "set windows \<subseteq> set (snd (assign_ref (FixedWindows 2) windows r))"
    and "distinct windows \<Longrightarrow> distinct (snd (assign_ref (FixedWindows 2) windows r))"
proof -
  have cov: "covers (assign (FixedWindows 2) r) (publish_time r)"
    using floor_window [of "publish_time r"] by (simp add: covers_def Let_def)
  show "set windows \<subseteq> set (snd (assign_ref (FixedWindows 2) windows r))"
    by (auto simp: assign_ref_def split: option.splits)
  show "assign (FixedWindows 2) r \<in> set (snd (assign_ref (FixedWindows 2) windows r))"
  proof (cases "find (\<lambda>w. covers w (publish_time r)) windows")
    case None
    then show ?thesis by (simp add: assign_ref_def)
  next
    case (Some w)
    then have "w \<in> set windows" by (auto simp: find_Some_iff)
    moreover have "w = assign (FixedWindows 2) r"
      using assign_ref_tumbling(1) [OF assms, of r] Some by (simp add: assign_ref_def)
    ultimately show ?thesis using Some by (simp add: assign_ref_def)
  qed
  show "distinct (snd (assign_ref (FixedWindows 2) windows r))" if d: "distinct windows"
  proof (cases "find (\<lambda>w. covers w (publish_time r)) windows")
    case None
    then have "assign (FixedWindows 2) r \<notin> set windows"
      using cov by (auto simp: find_None_iff)
    then show ?thesis using None d by (simp add: assign_ref_def)
  next
    case (Some w)
    then show ?thesis using d by (simp add: assign_ref_def)
  qed
qed

lemma arrive_keeps:
  "\<forall>w \<in> set windows. \<exists>k::int. w = \<lparr>win_start = of_int k * 2, win_end = of_int k * 2 + 2\<rparr>
   \<Longrightarrow> set windows \<subseteq> set (arrive (FixedWindows 2) windows rs)"
proof (induction rs arbitrary: windows)
  case Nil
  show ?case by simp
next
  case (Cons r rs)
  have "set (snd (assign_ref (FixedWindows 2) windows r))
      \<subseteq> set (arrive (FixedWindows 2) (snd (assign_ref (FixedWindows 2) windows r)) rs)"
    by (rule Cons.IH) (rule assign_ref_tumbling(2) [OF Cons.prems])
  with assign_ref_creates(2) [OF Cons.prems, of r] show ?case by auto
qed

lemma arrive_creates:
  "\<forall>w \<in> set windows. \<exists>k::int. w = \<lparr>win_start = of_int k * 2, win_end = of_int k * 2 + 2\<rparr>
   \<Longrightarrow> r \<in> set rs \<Longrightarrow> assign (FixedWindows 2) r \<in> set (arrive (FixedWindows 2) windows rs)"
proof (induction rs arbitrary: windows)
  case Nil
  then show ?case by simp
next
  case (Cons x rs)
  note inv = assign_ref_tumbling(2) [OF Cons.prems(1), of x]
  show ?case
  proof (cases "r = x")
    case True
    have "assign (FixedWindows 2) x \<in> set (snd (assign_ref (FixedWindows 2) windows x))"
      by (rule assign_ref_creates(1) [OF Cons.prems(1)])
    then show ?thesis using arrive_keeps [OF inv, of rs] True by auto
  next
    case False
    then have "r \<in> set rs" using Cons.prems(2) by simp
    then show ?thesis using Cons.IH [OF inv] by simp
  qed
qed

lemma arrive_distinct:
  "\<forall>w \<in> set windows. \<exists>k::int. w = \<lparr>win_start = of_int k * 2, win_end = of_int k * 2 + 2\<rparr>
   \<Longrightarrow> distinct windows \<Longrightarrow> distinct (arrive (FixedWindows 2) windows rs)"
proof (induction rs arbitrary: windows)
  case Nil
  then show ?case by simp
next
  case (Cons r rs)
  show ?case
    using Cons.IH [OF assign_ref_tumbling(2) [OF Cons.prems(1), of r]
        assign_ref_creates(3) [OF Cons.prems(1) Cons.prems(2), of r]]
    by simp
qed

text \<open>
  C1. With the window duration of 2 seconds that the source asks for, every record is
  assigned to the window that starts at \<open>floor(event_time / 2) * 2\<close> and lasts 2 seconds,
  and its event time lies in that window. Two records with the same
  \<open>floor(event_time / 2)\<close> get the same window. The order of arrival does not matter:
  whatever records arrived before, in whatever order, and whichever of the windows created
  for them are still kept, the assigner returns for a record the window that its own event
  time gives, and two records with the same floor get the same window after any two
  arrival sequences. The window of every record that arrived exists, and exists once.
\<close>

theorem fixed_windows_assign:
  "win_start (assign (FixedWindows 2) r) = of_int \<lfloor>publish_time r / 2\<rfloor> * 2
   \<and> win_end (assign (FixedWindows 2) r) = win_start (assign (FixedWindows 2) r) + 2
   \<and> win_start (assign (FixedWindows 2) r) \<le> publish_time r
   \<and> publish_time r < win_end (assign (FixedWindows 2) r)
   \<and> (\<lfloor>publish_time r1 / 2\<rfloor> = \<lfloor>publish_time r2 / 2\<rfloor>
        \<longrightarrow> assign (FixedWindows 2) r1 = assign (FixedWindows 2) r2)
   \<and> (set windows \<subseteq> set (arrive (FixedWindows 2) [] earlier)
        \<longrightarrow> fst (assign_ref (FixedWindows 2) windows r) = assign (FixedWindows 2) r)
   \<and> (\<lfloor>publish_time r1 / 2\<rfloor> = \<lfloor>publish_time r2 / 2\<rfloor>
        \<longrightarrow> fst (assign_ref (FixedWindows 2) (arrive (FixedWindows 2) [] earlier1) r1)
            = fst (assign_ref (FixedWindows 2) (arrive (FixedWindows 2) [] earlier2) r2))
   \<and> (r \<in> set earlier \<longrightarrow> assign (FixedWindows 2) r \<in> set (arrive (FixedWindows 2) [] earlier))
   \<and> distinct (arrive (FixedWindows 2) [] earlier)"
proof -
  have created: "r \<in> set earlier
      \<Longrightarrow> assign (FixedWindows 2) r \<in> set (arrive (FixedWindows 2) [] earlier)"
    by (rule arrive_creates) simp_all
  have once: "distinct (arrive (FixedWindows 2) [] earlier)"
    by (rule arrive_distinct) simp_all
  have bounds: "of_int \<lfloor>publish_time r / 2\<rfloor> * 2 \<le> publish_time r
      \<and> publish_time r < of_int \<lfloor>publish_time r / 2\<rfloor> * 2 + 2"
    by (rule floor_window)
  have same: "\<lfloor>publish_time r1 / 2\<rfloor> = \<lfloor>publish_time r2 / 2\<rfloor>
      \<Longrightarrow> assign (FixedWindows 2) r1 = assign (FixedWindows 2) r2"
    by (simp add: Let_def)
  have r1: "fst (assign_ref (FixedWindows 2) (arrive (FixedWindows 2) [] earlier1) r1)
      = assign (FixedWindows 2) r1"
    by (rule assign_ref_after_arrivals [of _ earlier1]) simp
  have r2: "fst (assign_ref (FixedWindows 2) (arrive (FixedWindows 2) [] earlier2) r2)
      = assign (FixedWindows 2) r2"
    by (rule assign_ref_after_arrivals [of _ earlier2]) simp
  have ref: "set windows \<subseteq> set (arrive (FixedWindows 2) [] earlier)
      \<Longrightarrow> fst (assign_ref (FixedWindows 2) windows r) = assign (FixedWindows 2) r"
    by (rule assign_ref_after_arrivals)
  show ?thesis
    using bounds same ref created once unfolding r1 r2 by (simp add: Let_def)
qed

text \<open>
  The records of the first end-to-end scenario with event times 0.1 s and 1.5 s, with a
  record at 5 s arriving before or between them: both are given the window from 0 to 2.
\<close>

theorem fixed_windows_assign_witness:
  "\<lfloor>publish_time \<lparr>payload = [0x7B, 0x7D], publish_time = 1 / 10\<rparr> / 2\<rfloor>
     = \<lfloor>publish_time \<lparr>payload = [0x5B, 0x5D], publish_time = 3 / 2\<rparr> / 2\<rfloor>
   \<and> arrive (FixedWindows 2) [] [\<lparr>payload = [0x31], publish_time = 5\<rparr>]
     = [\<lparr>win_start = 4, win_end = 6\<rparr>]
   \<and> arrive (FixedWindows 2) []
        [\<lparr>payload = [0x5B, 0x5D], publish_time = 3 / 2\<rparr>, \<lparr>payload = [0x31], publish_time = 5\<rparr>]
     = [\<lparr>win_start = 0, win_end = 2\<rparr>, \<lparr>win_start = 4, win_end = 6\<rparr>]
   \<and> set [\<lparr>win_start = 4, win_end = 6\<rparr>]
     \<subseteq> set (arrive (FixedWindows 2) []
          [\<lparr>payload = [0x5B, 0x5D], publish_time = 3 / 2\<rparr>, \<lparr>payload = [0x31], publish_time = 5\<rparr>])
   \<and> \<lparr>payload = [0x5B, 0x5D], publish_time = 3 / 2\<rparr>
     \<in> set [\<lparr>payload = [0x5B, 0x5D], publish_time = 3 / 2\<rparr>, \<lparr>payload = [0x31], publish_time = 5\<rparr>]
   \<and> assign (FixedWindows 2) \<lparr>payload = [0x5B, 0x5D], publish_time = 3 / 2\<rparr>
     = \<lparr>win_start = 0, win_end = 2\<rparr>
   \<and> arrive (FixedWindows 2) []
        [\<lparr>payload = [0x5B, 0x5D], publish_time = 3 / 2\<rparr>,
         \<lparr>payload = [0x7B, 0x7D], publish_time = 1 / 10\<rparr>,
         \<lparr>payload = [0x31], publish_time = 5\<rparr>]
     = [\<lparr>win_start = 0, win_end = 2\<rparr>, \<lparr>win_start = 4, win_end = 6\<rparr>]
   \<and> assign_ref (FixedWindows 2) [\<lparr>win_start = 4, win_end = 6\<rparr>]
        \<lparr>payload = [0x7B, 0x7D], publish_time = 1 / 10\<rparr>
     = (\<lparr>win_start = 0, win_end = 2\<rparr>, [\<lparr>win_start = 4, win_end = 6\<rparr>, \<lparr>win_start = 0, win_end = 2\<rparr>])
   \<and> assign_ref (FixedWindows 2) [\<lparr>win_start = 0, win_end = 2\<rparr>, \<lparr>win_start = 4, win_end = 6\<rparr>]
        \<lparr>payload = [0x7B, 0x7D], publish_time = 1 / 10\<rparr>
     = (\<lparr>win_start = 0, win_end = 2\<rparr>, [\<lparr>win_start = 0, win_end = 2\<rparr>, \<lparr>win_start = 4, win_end = 6\<rparr>])
   \<and> fst (assign_ref (FixedWindows 2)
          (arrive (FixedWindows 2) [] [\<lparr>payload = [0x31], publish_time = 5\<rparr>])
          \<lparr>payload = [0x7B, 0x7D], publish_time = 1 / 10\<rparr>)
     = fst (assign_ref (FixedWindows 2)
          (arrive (FixedWindows 2) []
             [\<lparr>payload = [0x7B, 0x7D], publish_time = 1 / 10\<rparr>, \<lparr>payload = [0x31], publish_time = 5\<rparr>])
          \<lparr>payload = [0x5B, 0x5D], publish_time = 3 / 2\<rparr>)"
  using fixed_windows_assign [of
      "\<lparr>payload = [0x5B, 0x5D], publish_time = 3 / 2\<rparr>"
      "\<lparr>payload = [0x7B, 0x7D], publish_time = 1 / 10\<rparr>"
      "\<lparr>payload = [0x5B, 0x5D], publish_time = 3 / 2\<rparr>"
      "[\<lparr>win_start = 4, win_end = 6\<rparr>]"
      "[\<lparr>payload = [0x5B, 0x5D], publish_time = 3 / 2\<rparr>, \<lparr>payload = [0x31], publish_time = 5\<rparr>]"
      "[\<lparr>payload = [0x31], publish_time = 5\<rparr>]"
      "[\<lparr>payload = [0x7B, 0x7D], publish_time = 1 / 10\<rparr>, \<lparr>payload = [0x31], publish_time = 5\<rparr>]"]
  by (simp add: assign_ref_def covers_def)

section \<open>What \<open>process\<close> does with a payload\<close>

text \<open>
  C2, as claimed, fails: for the undecodable payload \<open>b'\xff'\<close> the function raises
  \<open>UnicodeDecodeError\<close>. There is no tagged failure and no dead-letter output.
\<close>

theorem process_malformed_counterexample:
  "decode_utf8 [0xFF] = Inl UnicodeDecodeError
   \<and> process 20 \<lparr>year = 2020, month = 5, day = 17\<rparr> [0xFF] = ([], Inl UnicodeDecodeError)"
  by (simp add: process_def decode_utf8_def)

text \<open>
  C2, amended. For every message whose payload is not well-formed UTF-8 (it is the
  encoding of no sequence of Unicode scalar values), \<open>process\<close> raises
  \<open>UnicodeDecodeError\<close> from the decoding of its first line, before anything is logged:
  no Record is produced for the message.
\<close>

theorem process_malformed_raises:
  "(\<nexists>dat. list_all is_scalar dat \<and> encode_utf8 dat = msg)
   \<Longrightarrow> process level today msg = ([], Inl UnicodeDecodeError)"
proof -
  assume "\<nexists>dat. list_all is_scalar dat \<and> encode_utf8 dat = msg"
  then have "decode_utf8 msg = Inl UnicodeDecodeError"
    using decode_utf8_Inl [of msg] by blast
  then show ?thesis by (simp add: process_def)
qed

text \<open>The payload \<open>b'\xc3('\<close>: a two-byte lead followed by an ASCII byte.\<close>

theorem process_malformed_raises_witness:
  "(\<nexists>dat. list_all is_scalar dat \<and> encode_utf8 dat = [0xC3, 0x28])
   \<and> process 20 \<lparr>year = 2020, month = 5, day = 17\<rparr> [0xC3, 0x28] = ([], Inl UnicodeDecodeError)"
proof -
  have "decode_utf8 [0xC3, 0x28] = Inl UnicodeDecodeError"
    by (simp add: decode_utf8_def is_cont_def)
  then have h: "\<nexists>dat. list_all is_scalar dat \<and> encode_utf8 dat = [0xC3, 0x28]"
    using decode_utf8_Inl [of "[0xC3, 0x28]"] by blast
  show ?thesis
    using h process_malformed_raises [OF h, of 20 "\<lparr>year = 2020, month = 5, day = 17\<rparr>"] by blast
qed

text \<open>
  C3 does not hold of the code. The claim is that the Record of every message carries the
  processing date, and lines 18 to 21 are written to that end, but \<open>process\<close> yields
  no Record for any message: it raises \<open>UnicodeDecodeError\<close> for an undecodable payload
  and \<open>TypeError\<close> for every other one, because line 17 hands the \<open>bytes\<close> message
  to \<open>beam.Map\<close>. The lambda is never applied, so the clock is never read and the date
  has no influence on what \<open>process\<close> does. For the payload \<open>b'{}'\<close> it logs
  \<open>Payload: {}\<close> and raises \<open>TypeError\<close>.
\<close>

theorem process_yields_no_record:
  "(snd (process level today msg) = Inl UnicodeDecodeError
      \<or> snd (process level today msg) = Inl TypeError)
   \<and> process level today msg = process level today' msg
   \<and> process 20 \<lparr>year = 2020, month = 5, day = 17\<rparr> [0x7B, 0x7D]
     = ([INFO (ascii ''Payload: {}'')], Inl TypeError)"
proof -
  have a: "snd (process level today msg) = Inl UnicodeDecodeError
      \<or> snd (process level today msg) = Inl TypeError"
    using decode_utf8_cases [of msg]
    by (auto simp: process_def beam_Map_def Create_def)
  have b: "process level today msg = process level today' msg"
    by (simp add: process_def beam_Map_def Create_def split: sum.splits)
  have c: "process 20 \<lparr>year = 2020, month = 5, day = 17\<rparr> [0x7B, 0x7D]
     = ([INFO (ascii ''Payload: {}'')], Inl TypeError)"
    by (simp add: process_def decode_utf8_def emit_def logging_info_def beam_Map_def
        Create_def ascii_def)
  from a b c show ?thesis by blast
qed

text \<open>
  C8, as claimed, fails: an invocation on the well-formed payload \<open>b'{}'\<close>, with the
  root logger at the level INFO that the script sets, writes the log record
  \<open>Payload: {}\<close>.
\<close>

theorem process_logs_counterexample:
  "decode_utf8 [0x7B, 0x7D] = Inr [0x7B, 0x7D]
   \<and> fst (process 20 \<lparr>year = 2020, month = 5, day = 17\<rparr> [0x7B, 0x7D])
     = [INFO (ascii ''Payload: {}'')]"
  by (simp add: process_def decode_utf8_def emit_def logging_info_def ascii_def)

text \<open>
  C8, amended. The transformer is not free of I/O: for every well-formed message (the UTF-8
  encoding of a string \<open>dat\<close>), every invocation writes exactly one log record,
  \<open>Payload: \<close> followed by \<open>dat\<close>, when the root logger is enabled for INFO, and
  writes none when it is not.
\<close>

theorem process_well_formed_logs:
  "list_all is_scalar dat \<Longrightarrow>
   fst (process level today (encode_utf8 dat))
     = (if level \<le> 20 then [INFO (ascii ''Payload: '' @ dat)] else [])"
proof -
  assume "list_all is_scalar dat"
  then have "decode_utf8 (encode_utf8 dat) = Inr dat" by (simp add: decode_utf8_iff)
  then show ?thesis by (simp add: process_def logging_info_def)
qed

text \<open>The payload is \<open>{\<close>, the euro sign and \<open>}\<close>: five bytes, three code points.\<close>

theorem process_well_formed_logs_witness:
  "list_all is_scalar [0x7B, 0x20AC, 0x7D]
   \<and> encode_utf8 [0x7B, 0x20AC, 0x7D] = [0x7B, 0xE2, 0x82, 0xAC, 0x7D]
   \<and> fst (process 20 \<lparr>year = 2020, month = 5, day = 17\<rparr> [0x7B, 0xE2, 0x82, 0xAC, 0x7D])
     = [INFO (ascii ''Payload: '' @ [0x7B, 0x20AC, 0x7D])]
   \<and> fst (process 30 \<lparr>year = 2020, month = 5, day = 17\<rparr> [0x7B, 0xE2, 0x82, 0xAC, 0x7D]) = []"
proof -
  have s: "list_all is_scalar [0x7B, 0x20AC, 0x7D]" by (simp add: is_scalar_def)
  have e: "encode_utf8 [0x7B, 0x20AC, 0x7D] = [0x7B, 0xE2, 0x82, 0xAC, 0x7D]"
    by (simp add: encode_utf8_def utf8_encode_nat_def encode_cp_def)
  show ?thesis
    using s e process_well_formed_logs [OF s, of 20 "\<lparr>year = 2020, month = 5, day = 17\<rparr>"]
      process_well_formed_logs [OF s, of 30 "\<lparr>year = 2020, month = 5, day = 17\<rparr>"]
    by simp
qed

section \<open>The watermark never moves backward\<close>

lemma observe_mono: "currentWatermark tr \<le> currentWatermark (observe margin tr ob)"
  by (simp add: observe_def Let_def)

lemma watermarks_sorted: "sorted (currentWatermark tr # watermarks margin tr obs)"
proof (induction obs arbitrary: tr)
  case Nil
  show ?case by simp
next
  case (Cons ob obs)
  have step: "currentWatermark tr \<le> currentWatermark (observe margin tr ob)"
    by (rule observe_mono)
  have rest: "sorted (currentWatermark (observe margin tr ob)
      # watermarks margin (observe margin tr ob) obs)"
    by (rule Cons.IH)
  from rest have "\<forall>w \<in> set (watermarks margin (observe margin tr ob) obs).
      currentWatermark (observe margin tr ob) \<le> w"
    by simp
  with step have "\<forall>w \<in> set (watermarks margin (observe margin tr ob) obs).
      currentWatermark tr \<le> w"
    by auto
  with step rest show ?case by simp
qed

text \<open>
  C4. Across every sequence of \<open>observe\<close> calls, in whatever order the event times
  arrive, the watermarks read after the calls never decrease, starting from the watermark
  before the first call. A call whose candidate lies below the current watermark leaves the
  watermark where it is and appends one anomaly to the log; it returns a tracker and raises
  nothing. Any other call moves the watermark to the candidate.
\<close>

theorem watermark_non_decreasing:
  "sorted (currentWatermark tr # watermarks margin tr obs)
   \<and> (candidate margin ob < currentWatermark tr \<longrightarrow>
        observe margin tr ob
          = tr\<lparr>anomalies := anomalies tr
                 @ [WatermarkRegressionAnomaly (currentWatermark tr) (candidate margin ob)]\<rparr>)
   \<and> (currentWatermark tr \<le> candidate margin ob \<longrightarrow>
        observe margin tr ob = tr\<lparr>currentWatermark := candidate margin ob\<rparr>)"
  using watermarks_sorted [of tr margin obs] by (simp add: observe_def Let_def)

text \<open>
  Event times 5, 3 and 7 with margin 1: the second call reports an earlier time and is
  clamped.
\<close>

theorem watermark_non_decreasing_witness:
  "candidate 1 \<lparr>event_time = 3, low_watermark_hint = Some 9, wall_clock = 20\<rparr>
     < currentWatermark \<lparr>currentWatermark = 4, anomalies = []\<rparr>
   \<and> observe 1 \<lparr>currentWatermark = 4, anomalies = []\<rparr>
        \<lparr>event_time = 3, low_watermark_hint = Some 9, wall_clock = 20\<rparr>
     = \<lparr>currentWatermark = 4, anomalies = [WatermarkRegressionAnomaly 4 2]\<rparr>
   \<and> currentWatermark \<lparr>currentWatermark = 4, anomalies = []\<rparr>
     \<le> candidate 1 \<lparr>event_time = 7, low_watermark_hint = Some 9, wall_clock = 22\<rparr>
   \<and> observe 1 \<lparr>currentWatermark = 4, anomalies = []\<rparr>
        \<lparr>event_time = 7, low_watermark_hint = Some 9, wall_clock = 22\<rparr>
     = \<lparr>currentWatermark = 6, anomalies = []\<rparr>
   \<and> watermarks 1 \<lparr>currentWatermark = 0, anomalies = []\<rparr>
        [\<lparr>event_time = 5, low_watermark_hint = Some 9, wall_clock = 20\<rparr>,
         \<lparr>event_time = 3, low_watermark_hint = Some 9, wall_clock = 21\<rparr>,
         \<lparr>event_time = 7, low_watermark_hint = Some 9, wall_clock = 22\<rparr>]
     = [4, 4, 6]"
  using watermark_non_decreasing [of "\<lparr>currentWatermark = 4, anomalies = []\<rparr>" 1 "[]"
      "\<lparr>event_time = 3, low_watermark_hint = Some 9, wall_clock = 20\<rparr>"]
    watermark_non_decreasing [of "\<lparr>currentWatermark = 4, anomalies = []\<rparr>" 1 "[]"
      "\<lparr>event_time = 7, low_watermark_hint = Some 9, wall_clock = 22\<rparr>"]
  by (simp add: observe_def candidate_def Let_def)

section \<open>\<open>run\<close> raises before it has a pipeline\<close>

lemma ReadFromPubSub_raises:
  "ReadFromPubSub ''dbserver1.inventory.customers'' = Inl ValueError"
  by (simp add: ReadFromPubSub_def parse_topic_def strip_prefix_def)

lemma ReadFromPubSub_ok:
  "ReadFromPubSub ''projects/p1/topics/customers'' = Inr (PubSubRead ''p1'' ''customers'')"
  by (simp add: ReadFromPubSub_def parse_topic_def strip_prefix_def)

lemma run_outcome:
  "snd (run Pipeline known_args pipeline_args save_main_session)
     = (case Pipeline (fst (run Pipeline known_args pipeline_args save_main_session)) of
          Inl e \<Rightarrow> Inl e
        | Inr p \<Rightarrow> Inl ValueError)"
  by (simp add: run_def Let_def labelled_transform_def ReadFromPubSub_raises split: sum.splits)

text \<open>
  C9 does not hold of the code. The claim is that \<open>run\<close> builds one and the same
  pipeline, from the topic to BigQuery, whatever \<open>--input\<close> and \<open>--output\<close> are.
  What \<open>run\<close> does is indeed the same for all values of the two options, but it builds
  no pipeline: when the framework accepts the options, the construction of
  \<open>ReadFromPubSub\<close> at line 55 raises \<open>ValueError\<close>, because the topic
  \<open>dbserver1.inventory.customers\<close> is not of the form
  \<open>projects/<project>/topics/<topic>\<close>, and nothing is read or written.
\<close>

theorem run_builds_no_pipeline:
  "snd (run Pipeline known_args pipeline_args save_main_session)
     = (case Pipeline (fst (run Pipeline known_args pipeline_args save_main_session)) of
          Inl e \<Rightarrow> Inl e
        | Inr p \<Rightarrow> Inl ValueError)
   \<and> run Pipeline known_args pipeline_args save_main_session
     = run Pipeline known_args' pipeline_args save_main_session
   \<and> snd (run Inr \<lparr>input = ''a.txt'', output = ''b.txt''\<rparr> [] True) = Inl ValueError"
proof -
  have a: "run Pipeline known_args pipeline_args save_main_session
     = run Pipeline known_args' pipeline_args save_main_session"
    by (simp add: run_def)
  have b: "snd (run Inr \<lparr>input = ''a.txt'', output = ''b.txt''\<rparr> [] True) = Inl ValueError"
    by (simp add: run_outcome)
  from a b run_outcome [of Pipeline known_args pipeline_args save_main_session]
  show ?thesis by blast
qed

text \<open>
  C7 does not hold of the code. The claim is that the sink table is written, and created
  when absent, with the fixed schema, and lines 61 to 64 give the schema and the
  create-if-needed disposition to that end. But the call of \<open>WriteToBigQuery\<close> gives no
  table and raises \<open>TypeError\<close>, and \<open>run\<close> does not get that far: it raises
  \<open>ValueError\<close> at line 55. A chain that has come as far as the write ends there with
  \<open>TypeError\<close>.
\<close>

theorem write_to_bigquery_raises:
  "WriteToBigQuery None ''insert_date:DATETIME, json_dat:STRING'' CREATE_IF_NEEDED = Inl TypeError
   \<and> snd (run Inr parser_defaults [] True) = Inl ValueError
   \<and> steps [(''2 Second Window'', WindowInto (FixedWindows 2))]
        [labelled_transform ''Write to BigQuery''
           (WriteToBigQuery None ''insert_date:DATETIME, json_dat:STRING'' CREATE_IF_NEEDED)]
     = Inl TypeError"
  by (simp add: WriteToBigQuery_def run_outcome labelled_transform_def)

section \<open>What the command line changes in the options\<close>

lemma run_options:
  "fst (run Pipeline known_args pipeline_args save_main_session)
     = \<lparr>flags = pipeline_args @ [''--job_name=dbz-test-example''],
        save_main_session_attr = Some save_main_session, streaming_attr = None\<rparr>"
  by (simp add: run_def Let_def PipelineOptions_def)

lemma replicate_job_inj:
  assumes "replicate n ''--streaming'' @ [''--job_name=dbz-test-example'']
      = replicate m ''--streaming'' @ [''--job_name=dbz-test-example'']"
  shows "n = m"
proof -
  have "length (replicate n ''--streaming'' @ [''--job_name=dbz-test-example''])
      = length (replicate m ''--streaming'' @ [''--job_name=dbz-test-example''])"
    using assms by (rule arg_cong)
  then show ?thesis by simp
qed

text \<open>
  C10, as claimed, fails: invoked with \<open>--streaming\<close> on the command line, \<open>run\<close>
  builds pipeline options that read streaming.
\<close>

theorem run_streaming_counterexample:
  "streaming (fst (run Inr parser_defaults [''--streaming''] True)) True"
  using streaming.intros [of "fst (run Inr parser_defaults [''--streaming''] True)" 1]
  by (simp add: run_options)

text \<open>
  C10, amended. \<open>run\<close> itself never assigns the streaming option: it builds the options
  from the arguments passed through from the command line, followed by the job name. When
  nothing is passed through, the options read the default (batch) mode; when
  \<open>--streaming\<close> is passed through, once or several times, they read streaming.
\<close>

theorem run_does_not_assign_streaming:
  "streaming_attr (fst (run Pipeline known_args pipeline_args save_main_session)) = None
   \<and> flags (fst (run Pipeline known_args pipeline_args save_main_session))
     = pipeline_args @ [''--job_name=dbz-test-example'']
   \<and> (pipeline_args = replicate n ''--streaming'' \<longrightarrow>
        streaming (fst (run Pipeline known_args pipeline_args save_main_session)) (0 < n)
        \<and> \<not> streaming (fst (run Pipeline known_args pipeline_args save_main_session)) (\<not> 0 < n))"
proof -
  have pos: "pipeline_args = replicate n ''--streaming'' \<Longrightarrow>
      streaming (fst (run Pipeline known_args pipeline_args save_main_session)) (0 < n)"
    by (rule streaming.intros) (simp_all add: run_options)
  have neg: "pipeline_args = replicate n ''--streaming'' \<Longrightarrow>
      \<not> streaming (fst (run Pipeline known_args pipeline_args save_main_session)) (\<not> 0 < n)"
  proof
    assume pa: "pipeline_args = replicate n ''--streaming''"
    assume "streaming (fst (run Pipeline known_args pipeline_args save_main_session)) (\<not> 0 < n)"
    then obtain m where "flags (fst (run Pipeline known_args pipeline_args save_main_session))
        = replicate m ''--streaming'' @ [''--job_name=dbz-test-example'']"
      and "(\<not> 0 < n) = (0 < m)"
      by (auto elim: streaming.cases)
    then show False using pa replicate_job_inj [of n m] by (auto simp: run_options)
  qed
  from pos neg show ?thesis by (simp add: run_options)
qed

text \<open>An invocation without arguments for the pipeline.\<close>

theorem run_does_not_assign_streaming_witness:
  "[] = replicate 0 ''--streaming''
   \<and> streaming (fst (run Inr parser_defaults [] True)) False
   \<and> \<not> streaming (fst (run Inr parser_defaults [] True)) True
   \<and> flags (fst (run Inr parser_defaults [] True)) = [''--job_name=dbz-test-example'']"
  using run_does_not_assign_streaming [of Inr parser_defaults "[]" True 0]
  by simp

end
